theory Spec2Isabelle
  imports Main "HOL-Library.AList" "HOL-Library.Multiset"
begin

section \<open>Few-shot task sampling: \<open>learn2learn/data/task_generator.py\<close>\<close>

text \<open>
  The module wraps a labelled dataset (\<open>MetaDataset\<close>), encodes a list of classes as
  dense indices (\<open>LabelEncoder\<close>) and samples N-way K-shot episodes
  (\<open>TaskGenerator.sample\<close>, returning a \<open>SampleDataset\<close>).

  The wrapped torch dataset is a finite sequence of \<open>(data, target)\<close> pairs, so it is a
  list of pairs here; positions are natural numbers. Python dictionaries keep insertion
  order, and \<open>labels\<close> is read off the key order, so \<open>labels_to_indices\<close> is an
  association list. Counts handed in by the caller (\<open>ways\<close>, \<open>shots\<close>) are Python
  integers, hence \<open>int\<close>.
\<close>

subsection \<open>Failures\<close>

text \<open>
  Every way the Python code can raise is a constructor. In the source the first three are
  the three \<open>assert\<close> statements (\<open>LabelEncoder.__init__\<close>, \<open>TaskGenerator.__init__\<close>,
  \<open>_check_classes\<close>); \<open>InsufficientShotsError\<close> and \<open>NegativeSizeError\<close> are the
  \<open>ValueError\<close>s of \<open>np.random.choice\<close>; \<open>KeyError\<close> and \<open>IndexError\<close> are
  Python's own for a missing dictionary key and an out-of-range position.
\<close>

datatype error =
    DuplicateLabelError
  | InsufficientClassesError
  | InvalidClassError
  | InsufficientShotsError
  | NegativeSizeError
  | KeyError
  | IndexError

subsection \<open>The random source and \<open>np.random.choice(a, size, replace=False)\<close>\<close>

text \<open>
  The process-wide random source is the sequence of raw numbers it is going to deliver;
  drawing consumes it from the front. A statement quantified over every \<open>rng\<close> covers
  every outcome of the draws.
\<close>

type_synonym rng = "nat list"

fun next_rand :: "rng \<Rightarrow> nat \<times> rng" where
  "next_rand [] = (0, [])"
| "next_rand (r # g) = (r, g)"

text \<open>
  Sampling without replacement: \<open>k\<close> times, pick one of the remaining elements by
  position and take it out of the population.
\<close>

fun draw :: "nat \<Rightarrow> 'a list \<Rightarrow> rng \<Rightarrow> 'a list \<times> rng" where
  "draw 0 xs g = ([], g)"
| "draw (Suc k) [] g = ([], g)"
| "draw (Suc k) (x # xs) g =
     (case next_rand g of (r, g') \<Rightarrow>
        (let i = r mod length (x # xs) in
         (case draw k (take i (x # xs) @ drop (Suc i) (x # xs)) g' of
            (ys, g'') \<Rightarrow> ((x # xs) ! i # ys, g''))))"

text \<open>
  Modelled from the spec: \<open>np.random.choice(a, size, replace=False)\<close> is numpy's and
  not among the sources. The specification describes it as the primitive that draws
  \<open>size\<close> distinct elements without replacement and fails, with what the
  specification names \<open>InsufficientShotsError\<close>, when the population is smaller
  than \<open>size\<close>. The checks are in numpy's order: an empty population with a non-zero
  size, a size above the population (both that \<open>ValueError\<close>), a negative size
  (a \<open>ValueError\<close> too); otherwise \<open>draw\<close> picks the elements.
\<close>

definition choice :: "'a list \<Rightarrow> int \<Rightarrow> rng \<Rightarrow> (error + 'a list) \<times> rng" where
  "choice a sz g =
     (if a = [] \<and> sz \<noteq> 0 then (Inl InsufficientShotsError, g)
      else if sz > int (length a) then (Inl InsufficientShotsError, g)
      else if sz < 0 then (Inl NegativeSizeError, g)
      else (case draw (nat sz) a g of (ys, g') \<Rightarrow> (Inr ys, g')))"

subsection \<open>\<open>SampleDataset\<close>\<close>

record ('d, 'l) sample_dataset =
  data :: "'d list"
  label :: "nat list"
  sampled_classes :: "'l list"

definition sample_dataset_len :: "('d, 'l) sample_dataset \<Rightarrow> nat" where
  "sample_dataset_len s = length (data s)"

subsection \<open>\<open>MetaDataset\<close>\<close>

text \<open>
  \<open>labels_to_indices\<close> is a \<open>defaultdict(list)\<close>: reading a key that is absent stores
  an empty list under it (at the end of the key order) and returns that list.
  \<open>dd_getitem\<close> is that read, returning the value and the dictionary afterwards;
  \<open>dd_append\<close> is \<open>d[k].append(i)\<close>.
\<close>

type_synonym 'l index = "('l \<times> nat list) list"

definition dd_getitem :: "'l index \<Rightarrow> 'l \<Rightarrow> nat list \<times> 'l index" where
  "dd_getitem d k =
     (case map_of d k of
        Some v \<Rightarrow> (v, d)
      | None \<Rightarrow> ([], d @ [(k, [])]))"

definition dd_append :: "'l index \<Rightarrow> 'l \<Rightarrow> nat \<Rightarrow> 'l index" where
  "dd_append d k i = (case dd_getitem d k of (v, d') \<Rightarrow> AList.update k (v @ [i]) d')"

record ('d, 'l) meta_dataset =
  dataset :: "('d \<times> 'l) list"
  labels_to_indices :: "'l index"
  labels :: "'l list"

definition get_dict_of_labels_to_indices :: "('d \<times> 'l) list \<Rightarrow> 'l index" where
  "get_dict_of_labels_to_indices ds =
     fold (\<lambda>i classes_to_indices. dd_append classes_to_indices (snd (ds ! i)) i)
       [0..<length ds] []"

definition MetaDataset :: "('d \<times> 'l) list \<Rightarrow> ('d, 'l) meta_dataset" where
  "MetaDataset ds =
     (let l2i = get_dict_of_labels_to_indices ds
      in \<lparr>dataset = ds, labels_to_indices = l2i, labels = map fst l2i\<rparr>)"

text \<open>\<open>MetaDataset.__getitem__\<close> delegates to the wrapped sequence.\<close>

definition meta_getitem :: "('d, 'l) meta_dataset \<Rightarrow> nat \<Rightarrow> error + ('d \<times> 'l)" where
  "meta_getitem md i = (if i < length (dataset md) then Inr (dataset md ! i) else Inl IndexError)"

definition meta_len :: "('d, 'l) meta_dataset \<Rightarrow> nat" where
  "meta_len md = length (dataset md)"

subsection \<open>\<open>LabelEncoder\<close>\<close>

record 'l label_encoder =
  class_to_idx :: "'l \<rightharpoonup> nat"
  idx_to_class :: "nat \<rightharpoonup> 'l"

definition encoder_step :: "nat \<times> 'l \<Rightarrow> 'l label_encoder \<Rightarrow> 'l label_encoder" where
  "encoder_step p enc =
     (case p of (idx, old_class) \<Rightarrow>
        enc\<lparr>class_to_idx := (class_to_idx enc)(old_class \<mapsto> idx),
            idx_to_class := (idx_to_class enc)(idx \<mapsto> old_class)\<rparr>)"

definition LabelEncoder :: "'l list \<Rightarrow> error + 'l label_encoder" where
  "LabelEncoder classes =
     (if card (set classes) = length classes
      then Inr (fold encoder_step (enumerate 0 classes)
                  \<lparr>class_to_idx = Map.empty, idx_to_class = Map.empty\<rparr>)
      else Inl DuplicateLabelError)"

text \<open>The two dictionary reads, \<open>class_to_idx[c]\<close> and \<open>idx_to_class[i]\<close>.\<close>

definition to_index :: "'l label_encoder \<Rightarrow> 'l \<Rightarrow> error + nat" where
  "to_index enc c = (case class_to_idx enc c of None \<Rightarrow> Inl KeyError | Some i \<Rightarrow> Inr i)"

definition to_label :: "'l label_encoder \<Rightarrow> nat \<Rightarrow> error + 'l" where
  "to_label enc i = (case idx_to_class enc i of None \<Rightarrow> Inl KeyError | Some c \<Rightarrow> Inr c)"

subsection \<open>\<open>TaskGenerator\<close>\<close>

record ('d, 'l) task_generator =
  tg_dataset :: "('d, 'l) meta_dataset"
  ways :: int
  classes :: "'l list"

definition check_classes :: "('d, 'l) meta_dataset \<Rightarrow> 'l list \<Rightarrow> error + unit" where
  "check_classes md cs =
     (if card (set cs - set (labels md)) = 0 then Inr () else Inl InvalidClassError)"

definition TaskGenerator ::
  "('d, 'l) meta_dataset \<Rightarrow> 'l list option \<Rightarrow> int \<Rightarrow> error + ('d, 'l) task_generator" where
  "TaskGenerator md cls w =
     (let cs = (case cls of None \<Rightarrow> labels md | Some c \<Rightarrow> c) in
      if \<not> int (length cs) \<ge> w then Inl InsufficientClassesError
      else (case check_classes md cs of
              Inl e \<Rightarrow> Inl e
            | Inr _ \<Rightarrow> Inr \<lparr>tg_dataset = md, ways = w, classes = cs\<rparr>))"

text \<open>
  Lines 115 to 122 of \<open>sample\<close>: the classes of the episode. Without an override the
  configured classes are checked again and \<open>ways\<close> of them are drawn; an override is
  taken as it is.
\<close>

definition classes_to_sample ::
  "('d, 'l) task_generator \<Rightarrow> 'l list option \<Rightarrow> rng \<Rightarrow> (error + 'l list) \<times> rng" where
  "classes_to_sample tg cls g =
     (case cls of
        None \<Rightarrow>
          (case check_classes (tg_dataset tg) (classes tg) of
             Inl e \<Rightarrow> (Inl e, g)
           | Inr _ \<Rightarrow> choice (classes tg) (ways tg) g)
      | Some cs \<Rightarrow> (Inr cs, g))"

text \<open>
  Lines 127 to 133: the loop over the classes of the episode. It reads the index through
  the \<open>defaultdict\<close>, so the index is part of the state it returns, also when a draw
  fails.
\<close>

fun sample_loop ::
  "'l label_encoder \<Rightarrow> int \<Rightarrow> 'l list \<Rightarrow> 'l index \<Rightarrow> rng \<Rightarrow> nat list \<Rightarrow> nat list \<Rightarrow>
     (error + nat list \<times> nat list) \<times> 'l index \<times> rng" where
  "sample_loop enc shots [] l2i g data_indices data_labels =
     (Inr (data_indices, data_labels), l2i, g)"
| "sample_loop enc shots (c # cs) l2i g data_indices data_labels =
     (case dd_getitem l2i c of (idxs, l2i') \<Rightarrow>
        (case choice idxs shots g of
           (Inl e, g') \<Rightarrow> (Inl e, l2i', g')
         | (Inr chosen, g') \<Rightarrow>
             (case to_index enc c of
                Inl e \<Rightarrow> (Inl e, l2i', g')
              | Inr k \<Rightarrow>
                  sample_loop enc shots cs l2i' g'
                    (data_indices @ chosen) (data_labels @ replicate (nat shots) k))))"

text \<open>Line 136: \<open>[self.dataset[idx][0] for idx in data_indices]\<close>.\<close>

fun fetch_data :: "('d, 'l) meta_dataset \<Rightarrow> nat list \<Rightarrow> error + 'd list" where
  "fetch_data md [] = Inr []"
| "fetch_data md (idx # rest) =
     (case meta_getitem md idx of
        Inl e \<Rightarrow> Inl e
      | Inr item \<Rightarrow>
          (case fetch_data md rest of
             Inl e \<Rightarrow> Inl e
           | Inr xs \<Rightarrow> Inr (fst item # xs)))"

text \<open>
  \<open>sample\<close> returns the episode or the failure, together with the sampler afterwards
  (its dataset's index may have been written by the loop) and the rest of the random
  source.
\<close>

definition set_index :: "('d, 'l) task_generator \<Rightarrow> 'l index \<Rightarrow> ('d, 'l) task_generator" where
  "set_index tg l2i = tg\<lparr>tg_dataset := (tg_dataset tg)\<lparr>labels_to_indices := l2i\<rparr>\<rparr>"

definition sample ::
  "('d, 'l) task_generator \<Rightarrow> 'l list option \<Rightarrow> int \<Rightarrow> rng \<Rightarrow>
     (error + ('d, 'l) sample_dataset) \<times> ('d, 'l) task_generator \<times> rng" where
  "sample tg cls shots g =
     (case classes_to_sample tg cls g of
        (Inl e, g1) \<Rightarrow> (Inl e, tg, g1)
      | (Inr cs, g1) \<Rightarrow>
          (case LabelEncoder cs of
             Inl e \<Rightarrow> (Inl e, tg, g1)
           | Inr label_encoder \<Rightarrow>
               (case sample_loop label_encoder shots cs
                       (labels_to_indices (tg_dataset tg)) g1 [] [] of
                  (Inl e, l2i, g2) \<Rightarrow> (Inl e, set_index tg l2i, g2)
                | (Inr (data_indices, data_labels), l2i, g2) \<Rightarrow>
                    (case fetch_data (tg_dataset (set_index tg l2i)) data_indices of
                       Inl e \<Rightarrow> (Inl e, set_index tg l2i, g2)
                     | Inr xs \<Rightarrow>
                         (Inr \<lparr>data = xs, label = data_labels, sampled_classes = cs\<rparr>,
                          set_index tg l2i, g2)))))"

subsection \<open>Vocabulary of the properties and a running example\<close>

text \<open>
  The positions the index holds for a class: what the read \<open>labels_to_indices[c]\<close>
  returns (nothing for a class the index does not know).
\<close>

definition positions_of :: "'l index \<Rightarrow> 'l \<Rightarrow> nat list" where
  "positions_of l2i c = fst (dd_getitem l2i c)"

text \<open>
  The example of the specification: ten items with labels \<open>0,0,0,1,1,1,2,2,2,2\<close>
  (the item at position \<open>i\<close> is the number \<open>100 + i\<close>), wrapped and sampled
  with \<open>ways = 2\<close>.
\<close>

definition example_dataset :: "(nat \<times> nat) list" where
  "example_dataset =
     [(100, 0), (101, 0), (102, 0), (103, 1), (104, 1), (105, 1),
      (106, 2), (107, 2), (108, 2), (109, 2)]"

definition example_meta :: "(nat, nat) meta_dataset" where
  "example_meta =
     \<lparr>dataset = example_dataset,
      labels_to_indices = [(0, [0, 1, 2]), (1, [3, 4, 5]), (2, [6, 7, 8, 9])],
      labels = [0, 1, 2]\<rparr>"

definition example_generator :: "(nat, nat) task_generator" where
  "example_generator = \<lparr>tg_dataset = example_meta, ways = 2, classes = [0, 1, 2]\<rparr>"

section \<open>Properties\<close>

subsection \<open>Drawing without replacement\<close>

lemma length_take_drop_Suc: "i < length ys \<Longrightarrow> length (take i ys @ drop (Suc i) ys) = length ys - 1"
  by auto

lemma mset_take_drop_Suc:
  "i < length ys \<Longrightarrow> mset ys = add_mset (ys ! i) (mset (take i ys @ drop (Suc i) ys))"
proof -
  assume "i < length ys"
  then have "ys = take i ys @ ys ! i # drop (Suc i) ys" by (rule id_take_nth_drop)
  then have "mset ys = mset (take i ys @ ys ! i # drop (Suc i) ys)" by simp
  then show ?thesis by simp
qed

lemma draw_Cons:
  "draw (Suc k) (x # xs) g =
     (let i = fst (next_rand g) mod length (x # xs);
          r = draw k (take i (x # xs) @ drop (Suc i) (x # xs)) (snd (next_rand g))
      in ((x # xs) ! i # fst r, snd r))"
  by (simp add: Let_def split_beta)

lemma draw_length: "k \<le> length xs \<Longrightarrow> length (fst (draw k xs g)) = k"
proof (induction k arbitrary: xs g)
  case 0
  then show ?case by simp
next
  case (Suc k)
  then obtain y ys where xs: "xs = y # ys" by (cases xs) auto
  define i where "i = fst (next_rand g) mod length xs"
  have lt: "i < length xs" unfolding i_def xs by simp
  have "k \<le> length (take i xs @ drop (Suc i) xs)"
    using length_take_drop_Suc[OF lt] Suc.prems by simp
  then have "length (fst (draw k (take i xs @ drop (Suc i) xs) (snd (next_rand g)))) = k"
    by (rule Suc.IH)
  then show ?case unfolding xs draw_Cons i_def by (simp add: Let_def)
qed

lemma draw_mset: "mset (fst (draw k xs g)) \<subseteq># mset xs"
proof (induction k arbitrary: xs g)
  case 0
  then show ?case by simp
next
  case (Suc k)
  show ?case
  proof (cases xs)
    case Nil
    then show ?thesis by simp
  next
    case (Cons y ys)
    define i where "i = fst (next_rand g) mod length xs"
    define rest where "rest = take i xs @ drop (Suc i) xs"
    have lt: "i < length xs" unfolding i_def Cons by simp
    have m: "mset xs = add_mset (xs ! i) (mset rest)"
      unfolding rest_def using lt by (rule mset_take_drop_Suc)
    have ih: "mset (fst (draw k rest (snd (next_rand g)))) \<subseteq># mset rest"
      by (rule Suc.IH)
    have "fst (draw (Suc k) xs g) = xs ! i # fst (draw k rest (snd (next_rand g)))"
      unfolding Cons draw_Cons i_def rest_def by (simp add: Let_def)
    then show ?thesis using ih m by simp
  qed
qed

lemma draw_set: "set (fst (draw k xs g)) \<subseteq> set xs"
  using set_mset_mono[OF draw_mset[of k xs g]] by simp

lemma distinct_mset_subseteq:
  assumes "mset ys \<subseteq># mset xs" and "distinct xs"
  shows "distinct ys"
proof -
  obtain Z where "mset xs = mset ys + Z"
    using assms(1) by (auto simp: mset_subset_eq_exists_conv)
  moreover obtain zs where "Z = mset zs" using ex_mset[of Z] by auto
  ultimately have "mset xs = mset (ys @ zs)" by simp
  then have "distinct (ys @ zs)" using assms(2) mset_eq_imp_distinct_iff by blast
  then show ?thesis by simp
qed

lemma draw_distinct: "distinct xs \<Longrightarrow> distinct (fst (draw k xs g))"
  using distinct_mset_subseteq[OF draw_mset[of k xs g]] by simp

text \<open>
  Every outcome is covered: from a duplicate-free population, each duplicate-free
  selection of its elements, in each order, is what \<open>draw\<close> returns for some random
  source.
\<close>

lemma draw_complete:
  "distinct xs \<Longrightarrow> distinct ys \<Longrightarrow> set ys \<subseteq> set xs \<Longrightarrow> \<exists>g. fst (draw (length ys) xs g) = ys"
proof (induction ys arbitrary: xs)
  case Nil
  then show ?case by simp
next
  case (Cons y ys)
  from Cons.prems(3) obtain i where i: "i < length xs" "xs ! i = y"
    by (auto simp: in_set_conv_nth)
  define rest where "rest = take i xs @ drop (Suc i) xs"
  have "mset (y # rest) = mset xs"
    using mset_take_drop_Suc[OF i(1)] i(2) by (simp add: rest_def)
  then have d: "distinct (y # rest)" and s: "set (y # rest) = set xs"
    using Cons.prems(1) mset_eq_imp_distinct_iff mset_eq_setD by blast+
  have "set ys \<subseteq> set rest" using Cons.prems(2,3) s by auto
  with Cons.IH[of rest] d Cons.prems(2) obtain g' where g': "fst (draw (length ys) rest g') = ys"
    by auto
  obtain x xs' where xs: "xs = x # xs'" using i(1) by (cases xs) auto
  have "fst (draw (length (y # ys)) xs (i # g')) = y # ys"
    using i g' unfolding xs rest_def by (simp add: draw_Cons Let_def del: draw.simps)
  then show ?case by blast
qed

subsection \<open>\<open>choice\<close>\<close>

lemma choice_Inr:
  assumes "choice a n g = (Inr ys, g')"
  shows "0 \<le> n" and "length ys = nat n" and "set ys \<subseteq> set a"
    and "distinct a \<Longrightarrow> distinct ys"
proof -
  have n: "0 \<le> n" "n \<le> int (length a)" and d: "draw (nat n) a g = (ys, g')"
    using assms by (auto simp: choice_def split: if_splits prod.splits)
  have ys: "ys = fst (draw (nat n) a g)" using d by simp
  show "0 \<le> n" by (rule n)
  show "length ys = nat n" unfolding ys using n by (intro draw_length) simp
  show "set ys \<subseteq> set a" unfolding ys by (rule draw_set)
  show "distinct a \<Longrightarrow> distinct ys" unfolding ys by (rule draw_distinct)
qed

lemma choice_short: "int (length a) < n \<Longrightarrow> choice a n g = (Inl InsufficientShotsError, g)"
  by (simp add: choice_def)

lemma choice_ok:
  "0 \<le> n \<Longrightarrow> n \<le> int (length a) \<Longrightarrow> \<exists>ys g'. choice a n g = (Inr ys, g')"
  by (cases "draw (nat n) a g") (auto simp: choice_def)

lemma choice_Inl:
  "choice a n g = (Inl e, g') \<Longrightarrow> e = InsufficientShotsError \<or> e = NegativeSizeError"
  by (auto simp: choice_def split: if_splits prod.splits)

lemma choice_Inl_pos:
  "choice a n g = (Inl e, g') \<Longrightarrow> 0 \<le> n \<Longrightarrow> e = InsufficientShotsError"
  by (auto simp: choice_def split: if_splits prod.splits)

subsection \<open>\<open>LabelEncoder\<close>\<close>

lemma LabelEncoder_distinct: "(\<exists>enc. LabelEncoder cs = Inr enc) \<longleftrightarrow> distinct cs"
  by (auto simp: LabelEncoder_def distinct_card card_distinct)

lemma LabelEncoder_duplicate: "\<not> distinct cs \<Longrightarrow> LabelEncoder cs = Inl DuplicateLabelError"
  using distinct_card[of cs] card_distinct[of cs] by (auto simp: LabelEncoder_def)

lemma encoder_step_simps:
  "class_to_idx (encoder_step (i, c) e) = (class_to_idx e)(c \<mapsto> i)"
  "idx_to_class (encoder_step (i, c) e) = (idx_to_class e)(i \<mapsto> c)"
  by (simp_all add: encoder_step_def)

lemma fold_idx_to_class:
  "idx_to_class (fold encoder_step (enumerate n cs) e) i =
     (if n \<le> i \<and> i < n + length cs then Some (cs ! (i - n)) else idx_to_class e i)"
proof (induction cs arbitrary: n e)
  case Nil
  then show ?case by auto
next
  case (Cons c cs)
  show ?case
    by (auto simp: Cons.IH encoder_step_simps nth_Cons' Suc_diff_le)
qed

lemma fold_class_to_idx_notin:
  "c \<notin> set cs \<Longrightarrow> class_to_idx (fold encoder_step (enumerate n cs) e) c = class_to_idx e c"
  by (induction cs arbitrary: n e) (auto simp: encoder_step_simps)

lemma fold_class_to_idx:
  "distinct cs \<Longrightarrow> i < length cs \<Longrightarrow>
   class_to_idx (fold encoder_step (enumerate n cs) e) (cs ! i) = Some (n + i)"
proof (induction cs arbitrary: n e i)
  case Nil
  then show ?case by simp
next
  case (Cons c cs)
  show ?case
  proof (cases i)
    case 0
    then show ?thesis using Cons.prems
      by (simp add: fold_class_to_idx_notin encoder_step_simps)
  next
    case (Suc j)
    then show ?thesis using Cons.prems Cons.IH[of j "Suc n"] by simp
  qed
qed

lemma LabelEncoder_idx_to_class:
  "LabelEncoder cs = Inr enc \<Longrightarrow> idx_to_class enc i = (if i < length cs then Some (cs ! i) else None)"
  by (auto simp: LabelEncoder_def fold_idx_to_class split: if_splits)

lemma LabelEncoder_class_to_idx:
  "LabelEncoder cs = Inr enc \<Longrightarrow> i < length cs \<Longrightarrow> class_to_idx enc (cs ! i) = Some i"
  using fold_class_to_idx[of cs i 0] card_distinct[of cs]
  by (auto simp: LabelEncoder_def split: if_splits)

subsection \<open>The running example is what the constructors build\<close>

lemma example_meta_built: "MetaDataset example_dataset = example_meta"
  by code_simp

lemma example_generator_built: "TaskGenerator example_meta None 2 = Inr example_generator"
  by code_simp

subsection \<open>The label encoder\<close>

text \<open>
  Claim C9. For a duplicate-free list of labels the encoder is built, and for every dense
  index \<open>i\<close> below the number of labels, reading the label of \<open>i\<close> and then the index
  of that label gives \<open>i\<close> back.
\<close>

theorem label_encoder_round_trip:
  assumes "distinct cs" and "i < length cs"
  shows "\<exists>enc c. LabelEncoder cs = Inr enc \<and> to_label enc i = Inr c \<and> to_index enc c = Inr i"
proof -
  obtain enc where enc: "LabelEncoder cs = Inr enc"
    using assms(1) LabelEncoder_distinct by blast
  have "to_label enc i = Inr (cs ! i)"
    using LabelEncoder_idx_to_class[OF enc, of i] assms(2) by (simp add: to_label_def)
  moreover have "to_index enc (cs ! i) = Inr i"
    using LabelEncoder_class_to_idx[OF enc assms(2)] by (simp add: to_index_def)
  ultimately show ?thesis using enc by blast
qed

theorem label_encoder_round_trip_witness:
  "distinct [5, 3, 7 :: nat] \<and> (1 :: nat) < length [5, 3, 7 :: nat] \<and>
   (\<exists>enc c. LabelEncoder [5, 3, 7 :: nat] = Inr enc \<and> to_label enc 1 = Inr c \<and>
      to_index enc c = Inr 1)"
  using label_encoder_round_trip[of "[5, 3, 7 :: nat]" 1] by simp

text \<open>
  Claim C8. A list of labels with a repeated label never gets an encoder: construction
  fails with \<open>DuplicateLabelError\<close>, and a call of \<open>sample\<close> whose classes (drawn or
  given) are that list fails with the same error, leaving the sampler as it was.
\<close>

theorem duplicate_labels_fail:
  assumes "\<not> distinct cs"
  shows "LabelEncoder cs = Inl DuplicateLabelError \<and>
         (\<forall>tg cls shots g g1. classes_to_sample tg cls g = (Inr cs, g1) \<longrightarrow>
            sample tg cls shots g = (Inl DuplicateLabelError, tg, g1))"
  using LabelEncoder_duplicate[OF assms] by (simp add: sample_def)

theorem duplicate_labels_fail_witness:
  "\<not> distinct [0, 0 :: nat] \<and> LabelEncoder [0, 0 :: nat] = Inl DuplicateLabelError \<and>
   classes_to_sample example_generator (Some [0, 0]) [] = (Inr [0, 0], []) \<and>
   sample example_generator (Some [0, 0]) 5 [] = (Inl DuplicateLabelError, example_generator, [])"
proof -
  have nd: "\<not> distinct [0, 0 :: nat]" by simp
  have c: "classes_to_sample example_generator (Some [0, 0]) [] = (Inr [0, 0], [])"
    by (simp add: classes_to_sample_def)
  show ?thesis using duplicate_labels_fail[OF nd] nd c by blast
qed

subsection \<open>An empty override\<close>

lemma set_index_same [simp]: "set_index tg (labels_to_indices (tg_dataset tg)) = tg"
  by (simp add: set_index_def)

text \<open>
  Claim C10. With the explicit empty override \<open>classes=[]\<close>, \<open>sample\<close> raises nothing
  and returns an episode of length 0 whose data, labels and sampled classes are empty,
  whatever the sampler, the number of shots and the random source are.
\<close>

theorem sample_empty_override:
  "sample tg (Some []) shots g =
     (Inr \<lparr>data = [], label = [], sampled_classes = []\<rparr>, tg, g) \<and>
   sample_dataset_len \<lparr>data = [], label = [], sampled_classes = []\<rparr> = 0"
  by (simp add: sample_def classes_to_sample_def LabelEncoder_def sample_dataset_len_def)

theorem sample_empty_override_witness:
  "sample example_generator (Some []) 5 [1, 2] =
     (Inr \<lparr>data = [], label = [], sampled_classes = []\<rparr>, example_generator, [1, 2])"
  using sample_empty_override[of example_generator 5 "[1, 2]"] by (rule conjunct1)

subsection \<open>Building the index\<close>

lemma dd_append_Nil: "dd_append [] k i = [(k, [i])]"
  by (simp add: dd_append_def dd_getitem_def)

lemma dd_append_Cons:
  "dd_append ((k', v) # d) k i =
     (if k' = k then (k', v @ [i]) # d else (k', v) # dd_append d k i)"
  by (simp add: dd_append_def dd_getitem_def split: option.splits)

lemma dd_append_map_fst:
  "map fst (dd_append d k i) = (if k \<in> set (map fst d) then map fst d else map fst d @ [k])"
  by (induction d) (force simp: dd_append_Nil dd_append_Cons)+

lemma dd_append_keys: "set (map fst (dd_append d k i)) = insert k (set (map fst d))"
  unfolding dd_append_map_fst by auto

lemma dd_append_distinct: "distinct (map fst d) \<Longrightarrow> distinct (map fst (dd_append d k i))"
proof (induction d)
  case Nil
  then show ?case by (simp add: dd_append_Nil)
next
  case (Cons p d)
  obtain k' v where p: "p = (k', v)" by (cases p)
  show ?case
  proof (cases "k' = k")
    case True
    then show ?thesis using Cons.prems by (simp add: p dd_append_Cons)
  next
    case False
    have "k' \<notin> set (map fst (dd_append d k i))"
      using Cons.prems False unfolding dd_append_keys by (simp add: p)
    then show ?thesis using Cons False by (simp add: p dd_append_Cons)
  qed
qed

lemma dd_append_positions:
  "mset (concat (map snd (dd_append d k i))) = add_mset i (mset (concat (map snd d)))"
  by (induction d) (auto simp: dd_append_Nil dd_append_Cons)

lemma dd_append_entry:
  "(k', v') \<in> set (dd_append d k i) \<Longrightarrow> j \<in> set v' \<Longrightarrow>
     (\<exists>v. (k', v) \<in> set d \<and> j \<in> set v) \<or> (k' = k \<and> j = i)"
proof (induction d)
  case Nil
  then show ?case by (simp add: dd_append_Nil)
next
  case (Cons p d)
  obtain a b where p: "p = (a, b)" by (cases p)
  show ?case
  proof (cases "a = k")
    case True
    then have "(k', v') = (k, b @ [i]) \<or> (k', v') \<in> set d"
      using Cons.prems(1) by (simp add: p dd_append_Cons)
    then show ?thesis
    proof
      assume "(k', v') = (k, b @ [i])"
      then have "k' = k" "j \<in> set b \<or> j = i" using Cons.prems(2) by auto
      then show ?thesis using True by (auto simp: p)
    next
      assume "(k', v') \<in> set d"
      then show ?thesis using Cons.prems(2) by auto
    qed
  next
    case False
    then have "(k', v') = (a, b) \<or> (k', v') \<in> set (dd_append d k i)"
      using Cons.prems(1) by (simp add: p dd_append_Cons)
    then show ?thesis
    proof
      assume "(k', v') = (a, b)"
      then show ?thesis using Cons.prems(2) by (auto simp: p)
    next
      assume "(k', v') \<in> set (dd_append d k i)"
      from Cons.IH[OF this Cons.prems(2)] show ?thesis by auto
    qed
  qed
qed

lemma scan_invariant:
  fixes ds :: "('d \<times> 'l) list"
  defines "step \<equiv> (\<lambda>i d. dd_append d (snd (ds ! i)) i)"
  shows "distinct (map fst (fold step [0..<n] [])) \<and>
         mset (concat (map snd (fold step [0..<n] []))) = mset [0..<n] \<and>
         (\<forall>k v j. (k, v) \<in> set (fold step [0..<n] []) \<longrightarrow> j \<in> set v \<longrightarrow> snd (ds ! j) = k)"
proof (induction n)
  case 0
  then show ?case by simp
next
  case (Suc n)
  define d where "d = fold step [0..<n] []"
  have next_d: "fold step [0..<Suc n] [] = dd_append d (snd (ds ! n)) n"
    by (simp add: d_def step_def)
  have ih: "distinct (map fst d)" "mset (concat (map snd d)) = mset [0..<n]"
    "\<And>k v j. (k, v) \<in> set d \<Longrightarrow> j \<in> set v \<Longrightarrow> snd (ds ! j) = k"
    using Suc.IH unfolding d_def by blast+
  have "distinct (map fst (dd_append d (snd (ds ! n)) n))"
    using ih(1) by (rule dd_append_distinct)
  moreover have "mset (concat (map snd (dd_append d (snd (ds ! n)) n))) = mset [0..<Suc n]"
    by (simp add: dd_append_positions ih(2))
  moreover have "snd (ds ! j) = k"
    if "(k, v) \<in> set (dd_append d (snd (ds ! n)) n)" "j \<in> set v" for k v j
    using dd_append_entry[OF that] ih(3) by blast
  ultimately show ?case unfolding next_d by blast
qed

lemma index_built:
  fixes ds :: "('d \<times> 'l) list"
  defines "l2i \<equiv> get_dict_of_labels_to_indices ds"
  shows "distinct (map fst l2i)"
    and "mset (concat (map snd l2i)) = mset [0..<length ds]"
    and "(k, v) \<in> set l2i \<Longrightarrow> j \<in> set v \<Longrightarrow> snd (ds ! j) = k"
  using scan_invariant[of ds "length ds"]
  unfolding l2i_def get_dict_of_labels_to_indices_def by blast+

text \<open>
  Claim C7. After construction of the wrapped dataset, the value lists of
  \<open>labels_to_indices\<close> together hold exactly the positions \<open>0 .. length - 1\<close>, no
  position occurs twice (neither in two lists nor twice in one), and every position
  stands under the label the dataset has at that position.
\<close>

theorem labels_to_indices_partition:
  "(\<Union>(k, v) \<in> set (labels_to_indices (MetaDataset ds)). set v) = {0..<length ds} \<and>
   distinct (concat (map snd (labels_to_indices (MetaDataset ds)))) \<and>
   (\<forall>(k, v) \<in> set (labels_to_indices (MetaDataset ds)). \<forall>i \<in> set v. snd (ds ! i) = k)"
proof -
  define l2i where "l2i = get_dict_of_labels_to_indices ds"
  have l2i: "labels_to_indices (MetaDataset ds) = l2i"
    by (simp add: MetaDataset_def l2i_def Let_def)
  have m: "mset (concat (map snd l2i)) = mset [0..<length ds]"
    unfolding l2i_def by (rule index_built(2))
  have "set (concat (map snd l2i)) = set [0..<length ds]"
    using m by (rule mset_eq_setD)
  then have u: "(\<Union>(k, v) \<in> set l2i. set v) = {0..<length ds}"
    by (auto simp: split_beta)
  have "distinct (concat (map snd l2i)) = distinct [0..<length ds]"
    using m by (rule mset_eq_imp_distinct_iff)
  then have d: "distinct (concat (map snd l2i))" by simp
  have "\<forall>(k, v) \<in> set l2i. \<forall>i \<in> set v. snd (ds ! i) = k"
    using index_built(3)[of _ _ ds] unfolding l2i_def by blast
  then show ?thesis unfolding l2i using u d by blast
qed

theorem labels_to_indices_partition_witness:
  "(\<Union>(k, v) \<in> set (labels_to_indices (MetaDataset example_dataset)). set v) =
     {0..<length example_dataset} \<and>
   distinct (concat (map snd (labels_to_indices (MetaDataset example_dataset)))) \<and>
   labels_to_indices (MetaDataset example_dataset) =
     [(0, [0, 1, 2]), (1, [3, 4, 5]), (2, [6, 7, 8, 9])]"
  using labels_to_indices_partition[of example_dataset] example_meta_built
  by (simp add: example_meta_def)

subsection \<open>Reading the index\<close>

lemma positions_of_alt:
  "positions_of l2i c = (case map_of l2i c of Some v \<Rightarrow> v | None \<Rightarrow> [])"
  by (simp add: positions_of_def dd_getitem_def split: option.splits)

lemma dd_getitem_fst: "fst (dd_getitem l2i c) = positions_of l2i c"
  by (simp add: positions_of_def)

lemma dd_getitem_known: "c \<in> fst ` set l2i \<Longrightarrow> snd (dd_getitem l2i c) = l2i"
  by (auto simp: dd_getitem_def map_of_eq_None_iff split: option.splits)

lemma dd_getitem_unknown: "c \<notin> fst ` set l2i \<Longrightarrow> snd (dd_getitem l2i c) = l2i @ [(c, [])]"
  by (auto simp: dd_getitem_def map_of_eq_None_iff[symmetric] split: option.splits)

lemma positions_of_after_read: "positions_of (snd (dd_getitem l2i c)) c' = positions_of l2i c'"
  by (auto simp: positions_of_alt dd_getitem_def map_of_append split: option.splits if_splits)

lemma keys_after_read: "fst ` set (snd (dd_getitem l2i c)) = insert c (fst ` set l2i)"
  by (cases "c \<in> fst ` set l2i") (auto simp: dd_getitem_known dd_getitem_unknown)

subsection \<open>The sampling loop\<close>

lemma sample_loop_Cons:
  "sample_loop enc shots (c # cs) l2i g di dl =
     (case choice (positions_of l2i c) shots g of
        (Inl e, g') \<Rightarrow> (Inl e, snd (dd_getitem l2i c), g')
      | (Inr chosen, g') \<Rightarrow>
          (case to_index enc c of
             Inl e \<Rightarrow> (Inl e, snd (dd_getitem l2i c), g')
           | Inr k \<Rightarrow> sample_loop enc shots cs (snd (dd_getitem l2i c)) g'
                       (di @ chosen) (dl @ replicate (nat shots) k)))"
  by (simp add: positions_of_def split_beta)

declare sample_loop.simps(2) [simp del]

lemma sample_loop_Inr:
  assumes "sample_loop enc shots cs l2i g di dl = (Inr (di', dl'), l2i', g')"
  shows "\<exists>chunks. di' = di @ concat chunks \<and>
           list_all2 (\<lambda>c ch. length ch = nat shots \<and> set ch \<subseteq> set (positions_of l2i c)) cs chunks \<and>
           dl' = dl @ concat (map (\<lambda>c. replicate (nat shots) (the (class_to_idx enc c))) cs) \<and>
           (cs \<noteq> [] \<longrightarrow> 0 \<le> shots)"
  using assms
proof (induction cs arbitrary: l2i g di dl)
  case Nil
  then show ?case by simp
next
  case (Cons c cs)
  from Cons.prems obtain chosen g1 k where
    ch: "choice (positions_of l2i c) shots g = (Inr chosen, g1)" and
    k: "to_index enc c = Inr k" and
    rest: "sample_loop enc shots cs (snd (dd_getitem l2i c)) g1 (di @ chosen)
             (dl @ replicate (nat shots) k) = (Inr (di', dl'), l2i', g')"
    unfolding sample_loop_Cons by (auto split: prod.splits sum.splits)
  from Cons.IH[OF rest] obtain chunks where
    c1: "di' = (di @ chosen) @ concat chunks" and
    c2: "list_all2 (\<lambda>c' ch. length ch = nat shots \<and>
           set ch \<subseteq> set (positions_of (snd (dd_getitem l2i c)) c')) cs chunks" and
    c3: "dl' = (dl @ replicate (nat shots) k) @
           concat (map (\<lambda>c. replicate (nat shots) (the (class_to_idx enc c))) cs)"
    by blast
  have k': "the (class_to_idx enc c) = k"
    using k by (auto simp: to_index_def split: option.splits)
  have "di' = di @ concat (chosen # chunks)" using c1 by simp
  moreover have "list_all2 (\<lambda>c ch. length ch = nat shots \<and> set ch \<subseteq> set (positions_of l2i c))
                   (c # cs) (chosen # chunks)"
    using c2 choice_Inr(2,3)[OF ch] by (simp add: positions_of_after_read)
  moreover have "dl' = dl @ concat (map (\<lambda>c. replicate (nat shots) (the (class_to_idx enc c))) (c # cs))"
    using c3 k' by simp
  moreover have "0 \<le> shots" using choice_Inr(1)[OF ch] .
  ultimately show ?case by blast
qed

lemma sample_loop_Inl:
  "sample_loop enc shots cs l2i g di dl = (Inl e, l2i', g') \<Longrightarrow>
     e = InsufficientShotsError \<or> e = NegativeSizeError \<or> e = KeyError"
proof (induction cs arbitrary: l2i g di dl)
  case Nil
  then show ?case by simp
next
  case (Cons c cs)
  show ?case
  proof (cases "choice (positions_of l2i c) shots g")
    case (Pair r g1)
    show ?thesis
    proof (cases r)
      case (Inl e1)
      then show ?thesis using Cons.prems Pair choice_Inl[of "positions_of l2i c" shots g e1 g1]
        by (auto simp: sample_loop_Cons)
    next
      case (Inr chosen)
      show ?thesis
      proof (cases "class_to_idx enc c")
        case None
        then show ?thesis using Cons.prems Pair Inr
          by (simp add: sample_loop_Cons to_index_def)
      next
        case (Some k)
        then show ?thesis using Cons.prems Pair Inr Cons.IH
          by (simp add: sample_loop_Cons to_index_def)
      qed
    qed
  qed
qed

lemma sample_loop_index_unchanged:
  "set cs \<subseteq> fst ` set l2i \<Longrightarrow> fst (snd (sample_loop enc shots cs l2i g di dl)) = l2i"
proof (induction cs arbitrary: g di dl)
  case Nil
  then show ?case by simp
next
  case (Cons c cs)
  have same: "snd (dd_getitem l2i c) = l2i" using Cons.prems by (simp add: dd_getitem_known)
  have "set cs \<subseteq> fst ` set l2i" using Cons.prems by simp
  note ih = Cons.IH[OF this]
  show ?case unfolding sample_loop_Cons same
    by (auto split: prod.splits sum.splits simp: ih)
qed

lemma sample_loop_short:
  assumes "c \<in> set cs" and "int (length (positions_of l2i c)) < shots"
    and "\<forall>c \<in> set cs. class_to_idx enc c \<noteq> None"
  shows "\<exists>l2i' g'. sample_loop enc shots cs l2i g di dl = (Inl InsufficientShotsError, l2i', g')"
  using assms
proof (induction cs arbitrary: l2i g di dl)
  case Nil
  then show ?case by simp
next
  case (Cons c0 cs)
  have pos: "0 \<le> shots" using Cons.prems(2) by linarith
  obtain r g1 where ch: "choice (positions_of l2i c0) shots g = (r, g1)"
    by (cases "choice (positions_of l2i c0) shots g")
  show ?case
  proof (cases r)
    case (Inl e)
    then have "e = InsufficientShotsError" using choice_Inl_pos ch pos by blast
    then show ?thesis using ch Inl by (simp add: sample_loop_Cons)
  next
    case (Inr chosen)
    have "c \<noteq> c0" using choice_short[OF Cons.prems(2), of g] ch Inr by auto
    then have in_rest: "c \<in> set cs" using Cons.prems(1) by simp
    obtain k where k: "class_to_idx enc c0 = Some k" using Cons.prems(3) by auto
    have short: "int (length (positions_of (snd (dd_getitem l2i c0)) c)) < shots"
      using Cons.prems(2) by (simp add: positions_of_after_read)
    have "\<forall>c \<in> set cs. class_to_idx enc c \<noteq> None" using Cons.prems(3) by simp
    from Cons.IH[OF in_rest short this]
    show ?thesis using ch Inr k by (simp add: sample_loop_Cons to_index_def)
  qed
qed

lemma sample_loop_succeeds:
  assumes "0 \<le> shots"
    and "\<forall>c \<in> set cs. shots \<le> int (length (positions_of l2i c))"
    and "\<forall>c \<in> set cs. class_to_idx enc c \<noteq> None"
  shows "\<exists>di' dl' l2i' g'. sample_loop enc shots cs l2i g di dl = (Inr (di', dl'), l2i', g')"
  using assms(2,3)
proof (induction cs arbitrary: l2i g di dl)
  case Nil
  then show ?case by simp
next
  case (Cons c0 cs)
  obtain chosen g1 where ch: "choice (positions_of l2i c0) shots g = (Inr chosen, g1)"
    using choice_ok[OF assms(1), of "positions_of l2i c0" g] Cons.prems(1) by auto
  obtain k where k: "class_to_idx enc c0 = Some k" using Cons.prems(2) by auto
  have "\<forall>c \<in> set cs. shots \<le> int (length (positions_of (snd (dd_getitem l2i c0)) c))"
    using Cons.prems(1) by (simp add: positions_of_after_read)
  moreover have "\<forall>c \<in> set cs. class_to_idx enc c \<noteq> None" using Cons.prems(2) by simp
  ultimately show ?case
    using Cons.IH ch k by (simp add: sample_loop_Cons to_index_def)
qed

subsection \<open>Fetching the data\<close>

lemma fetch_data_Inr:
  "fetch_data md idxs = Inr xs \<Longrightarrow>
     xs = map (\<lambda>i. fst (dataset md ! i)) idxs \<and> (\<forall>i \<in> set idxs. i < length (dataset md))"
  by (induction idxs arbitrary: xs)
     (auto simp: meta_getitem_def split: if_splits sum.splits)

lemma fetch_data_Inl: "fetch_data md idxs = Inl e \<Longrightarrow> e = IndexError"
  by (induction idxs) (auto simp: meta_getitem_def split: if_splits sum.splits)

lemma fetch_data_ok:
  "\<forall>i \<in> set idxs. i < length (dataset md) \<Longrightarrow>
     fetch_data md idxs = Inr (map (\<lambda>i. fst (dataset md ! i)) idxs)"
  by (induction idxs) (auto simp: meta_getitem_def)

lemma set_index_fields [simp]:
  "dataset (tg_dataset (set_index tg l2i)) = dataset (tg_dataset tg)"
  "labels (tg_dataset (set_index tg l2i)) = labels (tg_dataset tg)"
  "labels_to_indices (tg_dataset (set_index tg l2i)) = l2i"
  "ways (set_index tg l2i) = ways tg"
  "classes (set_index tg l2i) = classes tg"
  by (simp_all add: set_index_def)

lemma fetch_data_set_index [simp]:
  "fetch_data (tg_dataset (set_index tg l2i)) idxs = fetch_data (tg_dataset tg) idxs"
  by (induction idxs) (simp_all add: meta_getitem_def)

subsection \<open>Taking \<open>sample\<close> apart\<close>

lemma classes_to_sample_rng_on_error:
  "classes_to_sample tg cls g = (Inl e, g1) \<Longrightarrow> g1 = g"
  by (auto simp: classes_to_sample_def choice_def split: option.splits sum.splits if_splits prod.splits)

lemma sample_Inr:
  assumes "sample tg cls shots g = (Inr ep, tg', g')"
  shows "\<exists>cs g1 enc di l2i'.
           classes_to_sample tg cls g = (Inr cs, g1) \<and> LabelEncoder cs = Inr enc \<and>
           sample_loop enc shots cs (labels_to_indices (tg_dataset tg)) g1 [] []
             = (Inr (di, label ep), l2i', g') \<and>
           fetch_data (tg_dataset tg) di = Inr (data ep) \<and>
           sampled_classes ep = cs \<and> tg' = set_index tg l2i'"
  using assms unfolding sample_def
  by (auto split: prod.splits sum.splits)

lemma sample_after_selection:
  assumes "classes_to_sample tg cls g = (Inr cs, g1)" and "LabelEncoder cs = Inr enc"
  shows "sample tg cls shots g =
     (case sample_loop enc shots cs (labels_to_indices (tg_dataset tg)) g1 [] [] of
        (Inl e, l2i, g2) \<Rightarrow> (Inl e, set_index tg l2i, g2)
      | (Inr (di, dl), l2i, g2) \<Rightarrow>
          (case fetch_data (tg_dataset tg) di of
             Inl e \<Rightarrow> (Inl e, set_index tg l2i, g2)
           | Inr xs \<Rightarrow> (Inr \<lparr>data = xs, label = dl, sampled_classes = cs\<rparr>,
                        set_index tg l2i, g2)))"
  using assms unfolding sample_def by (simp split: prod.splits sum.splits)

subsection \<open>Episodes\<close>

lemma length_concat_chunks:
  "list_all2 (\<lambda>c ch. length ch = n \<and> P c ch) cs chunks \<Longrightarrow>
     length (concat chunks) = length cs * n"
  by (induction cs chunks rule: list_all2_induct) simp_all

lemma classes_to_sample_None_Inr:
  assumes "classes_to_sample tg None g = (Inr cs, g1)"
  shows "int (length cs) = ways tg" and "set cs \<subseteq> set (classes tg)"
    and "set (classes tg) \<subseteq> set (labels (tg_dataset tg))"
proof -
  have chk: "check_classes (tg_dataset tg) (classes tg) = Inr ()"
    and ch: "choice (classes tg) (ways tg) g = (Inr cs, g1)"
    using assms by (auto simp: classes_to_sample_def split: sum.splits)
  show "int (length cs) = ways tg" using choice_Inr(1,2)[OF ch] by simp
  show "set cs \<subseteq> set (classes tg)" using choice_Inr(3)[OF ch] .
  show "set (classes tg) \<subseteq> set (labels (tg_dataset tg))"
    using chk by (auto simp: check_classes_def split: if_splits)
qed

lemma classes_to_sample_Some [simp]: "classes_to_sample tg (Some cs) g = (Inr cs, g)"
  by (simp add: classes_to_sample_def)

lemma encoder_labels:
  assumes "LabelEncoder cs = Inr enc"
  shows "concat (map (\<lambda>c. replicate n (the (class_to_idx enc c))) cs) =
         concat (map (\<lambda>i. replicate n i) [0..<length cs])"
proof -
  have "map (\<lambda>c. replicate n (the (class_to_idx enc c))) cs =
        map (\<lambda>i. replicate n (the (class_to_idx enc (cs ! i)))) [0..<length cs]"
    by (rule nth_equalityI) simp_all
  also have "\<dots> = map (\<lambda>i. replicate n i) [0..<length cs]"
    using LabelEncoder_class_to_idx[OF assms] by simp
  finally show ?thesis by simp
qed

lemma encoder_knows_classes:
  "LabelEncoder cs = Inr enc \<Longrightarrow> \<forall>c \<in> set cs. class_to_idx enc c \<noteq> None"
  using LabelEncoder_class_to_idx by (fastforce simp: in_set_conv_nth)

text \<open>
  Claim C1, as amended. The episode of a successful \<open>sample(shots=k)\<close> has length
  \<open>ways * k\<close> when the classes were drawn from the configured ones, and length
  \<open>len(classes) * k\<close> when a class list was passed to \<open>sample\<close>: the override is used as
  it is, whatever its size.
\<close>

theorem episode_length:
  assumes "sample tg cls shots g = (Inr ep, tg', g')"
  shows "int (sample_dataset_len ep) =
           (case cls of None \<Rightarrow> ways tg | Some cs \<Rightarrow> int (length cs)) * shots"
proof -
  from sample_Inr[OF assms] obtain cs g1 enc di l2i' where
    sel: "classes_to_sample tg cls g = (Inr cs, g1)" and
    loop: "sample_loop enc shots cs (labels_to_indices (tg_dataset tg)) g1 [] []
             = (Inr (di, label ep), l2i', g')" and
    fetch: "fetch_data (tg_dataset tg) di = Inr (data ep)"
    by blast
  from sample_loop_Inr[OF loop] obtain chunks where
    di: "di = concat chunks" and
    all: "list_all2 (\<lambda>c ch. length ch = nat shots \<and>
            set ch \<subseteq> set (positions_of (labels_to_indices (tg_dataset tg)) c)) cs chunks" and
    pos: "cs \<noteq> [] \<longrightarrow> 0 \<le> shots"
    by auto
  have "length (data ep) = length di" using fetch_data_Inr[OF fetch] by simp
  also have "\<dots> = length cs * nat shots" unfolding di using all by (rule length_concat_chunks)
  finally have "int (sample_dataset_len ep) = int (length cs) * int (nat shots)"
    by (simp add: sample_dataset_len_def)
  also have "\<dots> = int (length cs) * shots" using pos by (cases "cs = []") simp_all
  also have "int (length cs) = (case cls of None \<Rightarrow> ways tg | Some cs \<Rightarrow> int (length cs))"
  proof (cases cls)
    case None
    then show ?thesis using classes_to_sample_None_Inr(1) sel by fastforce
  next
    case (Some cs')
    then show ?thesis using sel by simp
  qed
  finally show ?thesis .
qed

theorem episode_length_witness:
  "sample example_generator None 2 [5, 3, 7, 1, 2, 9, 4] =
     (Inr \<lparr>data = [109, 107, 105, 104], label = [0, 0, 1, 1], sampled_classes = [2, 1]\<rparr>,
      example_generator, [4]) \<and>
   int (sample_dataset_len \<lparr>data = [109, 107, 105, 104 :: nat], label = [0, 0, 1, 1],
      sampled_classes = [2, 1 :: nat]\<rparr>) = ways example_generator * 2"
proof -
  have run: "sample example_generator None 2 [5, 3, 7, 1, 2, 9, 4] =
     (Inr \<lparr>data = [109, 107, 105, 104], label = [0, 0, 1, 1], sampled_classes = [2, 1]\<rparr>,
      example_generator, [4])"
    by code_simp
  have "int (sample_dataset_len \<lparr>data = [109, 107, 105, 104 :: nat], label = [0, 0, 1, 1],
      sampled_classes = [2, 1 :: nat]\<rparr>) = ways example_generator * 2"
    using episode_length[OF run] by (simp only: option.case)
  with run show ?thesis by (rule conjI)
qed

theorem episode_length_counterexample:
  "TaskGenerator (MetaDataset example_dataset) None 2 = Inr example_generator \<and>
   sample example_generator (Some [0]) 1 [] =
     (Inr \<lparr>data = [100], label = [0], sampled_classes = [0]\<rparr>, example_generator, []) \<and>
   int (sample_dataset_len \<lparr>data = [100 :: nat], label = [0], sampled_classes = [0 :: nat]\<rparr>)
     \<noteq> ways example_generator * 1"
proof -
  have built: "TaskGenerator (MetaDataset example_dataset) None 2 = Inr example_generator"
    by (simp only: example_meta_built example_generator_built)
  have run: "sample example_generator (Some [0]) 1 [] =
     (Inr \<lparr>data = [100], label = [0], sampled_classes = [0]\<rparr>, example_generator, [])"
    by code_simp
  have len: "int (sample_dataset_len \<lparr>data = [100 :: nat], label = [0], sampled_classes = [0 :: nat]\<rparr>)
     \<noteq> ways example_generator * 1"
    by (simp add: sample_dataset_len_def example_generator_def)
  from built run len show ?thesis by (intro conjI)
qed

text \<open>
  Claim C2, as amended. In the episode of a successful \<open>sample\<close> call the remapped
  labels are the dense indices \<open>0 .. n - 1\<close>, each repeated \<open>shots\<close> times in one
  contiguous run, in class order, where \<open>n\<close> is the number of classes of the episode:
  \<open>n = ways\<close> when the classes were drawn, and the classes (hence \<open>n\<close>) are the
  override's when one was passed.
\<close>

theorem episode_labels:
  assumes "sample tg cls shots g = (Inr ep, tg', g')"
  shows "label ep = concat (map (replicate (nat shots)) [0..<length (sampled_classes ep)]) \<and>
         (case cls of
            None \<Rightarrow> int (length (sampled_classes ep)) = ways tg
          | Some cs \<Rightarrow> sampled_classes ep = cs)"
proof -
  from sample_Inr[OF assms] obtain cs g1 enc di l2i' where
    sel: "classes_to_sample tg cls g = (Inr cs, g1)" and
    enc: "LabelEncoder cs = Inr enc" and
    loop: "sample_loop enc shots cs (labels_to_indices (tg_dataset tg)) g1 [] []
             = (Inr (di, label ep), l2i', g')" and
    cs: "sampled_classes ep = cs"
    by blast
  from sample_loop_Inr[OF loop]
  have "label ep = concat (map (\<lambda>c. replicate (nat shots) (the (class_to_idx enc c))) cs)"
    by auto
  also have "\<dots> = concat (map (\<lambda>i. replicate (nat shots) i) [0..<length cs])"
    using enc by (rule encoder_labels)
  finally have l: "label ep = concat (map (replicate (nat shots)) [0..<length (sampled_classes ep)])"
    unfolding cs .
  have "case cls of None \<Rightarrow> int (length (sampled_classes ep)) = ways tg
        | Some cs \<Rightarrow> sampled_classes ep = cs"
  proof (cases cls)
    case None
    then show ?thesis using classes_to_sample_None_Inr(1) sel cs by fastforce
  next
    case (Some cs')
    then show ?thesis using sel cs by simp
  qed
  with l show ?thesis by (rule conjI)
qed

theorem episode_labels_witness:
  "sample example_generator None 2 [5, 3, 7, 1, 2, 9, 4] =
     (Inr \<lparr>data = [109, 107, 105, 104], label = [0, 0, 1, 1], sampled_classes = [2, 1]\<rparr>,
      example_generator, [4]) \<and>
   label \<lparr>data = [109, 107, 105, 104 :: nat], label = [0, 0, 1, 1], sampled_classes = [2, 1 :: nat]\<rparr> =
     concat (map (replicate (nat 2)) [0..<length (sampled_classes
       \<lparr>data = [109, 107, 105, 104 :: nat], label = [0, 0, 1, 1], sampled_classes = [2, 1 :: nat]\<rparr>)]) \<and>
   int (length (sampled_classes
       \<lparr>data = [109, 107, 105, 104 :: nat], label = [0, 0, 1, 1], sampled_classes = [2, 1 :: nat]\<rparr>))
     = ways example_generator"
proof -
  have run: "sample example_generator None 2 [5, 3, 7, 1, 2, 9, 4] =
     (Inr \<lparr>data = [109, 107, 105, 104], label = [0, 0, 1, 1], sampled_classes = [2, 1]\<rparr>,
      example_generator, [4])"
    by code_simp
  from episode_labels[OF run] run show ?thesis by (simp only: option.case)
qed

theorem episode_labels_counterexample:
  "sample example_generator (Some [2, 0, 1]) 1 [] =
     (Inr \<lparr>data = [106, 100, 103], label = [0, 1, 2], sampled_classes = [2, 0, 1]\<rparr>,
      example_generator, []) \<and>
   ways example_generator = 2 \<and>
   [0, 1, 2] \<noteq> concat (map (replicate (nat 1)) [0..<nat (ways example_generator)])"
proof -
  have run: "sample example_generator (Some [2, 0, 1]) 1 [] =
     (Inr \<lparr>data = [106, 100, 103], label = [0, 1, 2], sampled_classes = [2, 0, 1]\<rparr>,
      example_generator, [])"
    by code_simp
  have w: "ways example_generator = 2" by (simp add: example_generator_def)
  have "[0..<nat 2] = [0, 1]" by code_simp
  then have ne: "[0, 1, 2] \<noteq> concat (map (replicate (nat 1)) [0..<nat (ways example_generator)])"
    unfolding w by simp
  from run w ne show ?thesis by (intro conjI)
qed

subsection \<open>Where the items of an episode come from\<close>

lemma chunks_members:
  "list_all2 (\<lambda>c ch. length ch = n \<and> set ch \<subseteq> set (f c)) cs chunks \<Longrightarrow>
     i \<in> set (concat chunks) \<Longrightarrow> \<exists>c \<in> set cs. i \<in> set (f c)"
  by (induction cs chunks rule: list_all2_induct) auto

lemma chunks_strengthen:
  "list_all2 (\<lambda>c ch. length ch = n \<and> set ch \<subseteq> set (f c)) cs chunks \<Longrightarrow>
     \<forall>i \<in> set (concat chunks). i < m \<Longrightarrow>
     list_all2 (\<lambda>c ch. length ch = n \<and> set ch \<subseteq> set (f c) \<and> (\<forall>i \<in> set ch. i < m)) cs chunks"
  by (induction cs chunks rule: list_all2_induct) auto

text \<open>
  Claim C5. In a successful \<open>sample\<close> call the data of the episode is the concatenation
  of one chunk per class of the episode, in class order; every chunk holds \<open>shots\<close>
  items, each fetched from the wrapped dataset at a position that the index lists under
  that class.
\<close>

theorem episode_items_from_class_positions:
  assumes "sample tg cls shots g = (Inr ep, tg', g')"
  shows "\<exists>chunks.
           data ep = concat (map (map (\<lambda>i. fst (dataset (tg_dataset tg) ! i))) chunks) \<and>
           list_all2 (\<lambda>c ch. length ch = nat shots \<and>
                        set ch \<subseteq> set (positions_of (labels_to_indices (tg_dataset tg)) c) \<and>
                        (\<forall>i \<in> set ch. i < length (dataset (tg_dataset tg))))
             (sampled_classes ep) chunks"
proof -
  from sample_Inr[OF assms] obtain cs g1 enc di l2i' where
    loop: "sample_loop enc shots cs (labels_to_indices (tg_dataset tg)) g1 [] []
             = (Inr (di, label ep), l2i', g')" and
    fetch: "fetch_data (tg_dataset tg) di = Inr (data ep)" and
    cs: "sampled_classes ep = cs"
    by blast
  from sample_loop_Inr[OF loop] obtain chunks where
    di: "di = concat chunks" and
    all: "list_all2 (\<lambda>c ch. length ch = nat shots \<and>
            set ch \<subseteq> set (positions_of (labels_to_indices (tg_dataset tg)) c)) cs chunks"
    by auto
  from fetch_data_Inr[OF fetch] have
    d: "data ep = map (\<lambda>i. fst (dataset (tg_dataset tg) ! i)) (concat chunks)" and
    r: "\<forall>i \<in> set (concat chunks). i < length (dataset (tg_dataset tg))"
    unfolding di by blast+
  have "data ep = concat (map (map (\<lambda>i. fst (dataset (tg_dataset tg) ! i))) chunks)"
    unfolding d by (simp add: map_concat)
  moreover note chunks_strengthen[OF all r]
  ultimately show ?thesis unfolding cs by blast
qed

lemma sample_succeeds:
  assumes sel: "classes_to_sample tg cls g = (Inr cs, g1)" and "distinct cs" and "0 \<le> shots"
    and enough: "\<forall>c \<in> set cs. shots \<le> int (length (positions_of (labels_to_indices (tg_dataset tg)) c))"
    and range: "\<forall>c \<in> set cs. \<forall>i \<in> set (positions_of (labels_to_indices (tg_dataset tg)) c).
                  i < length (dataset (tg_dataset tg))"
  shows "\<exists>ep tg' g'. sample tg cls shots g = (Inr ep, tg', g')"
proof -
  obtain enc where enc: "LabelEncoder cs = Inr enc"
    using \<open>distinct cs\<close> LabelEncoder_distinct by blast
  from sample_loop_succeeds[OF \<open>0 \<le> shots\<close> enough encoder_knows_classes[OF enc]]
  obtain di dl l2i' g' where
    loop: "sample_loop enc shots cs (labels_to_indices (tg_dataset tg)) g1 [] []
             = (Inr (di, dl), l2i', g')"
    by blast
  from sample_loop_Inr[OF loop] obtain chunks where
    di: "di = concat chunks" and
    all: "list_all2 (\<lambda>c ch. length ch = nat shots \<and>
            set ch \<subseteq> set (positions_of (labels_to_indices (tg_dataset tg)) c)) cs chunks"
    by auto
  have "\<forall>i \<in> set di. i < length (dataset (tg_dataset tg))"
    unfolding di using chunks_members[OF all] range by blast
  from fetch_data_ok[OF this] show ?thesis
    unfolding sample_after_selection[OF sel enc] loop by simp
qed

lemma example_positions:
  "positions_of (labels_to_indices (tg_dataset example_generator)) 0 = [0, 1, 2]"
  "positions_of (labels_to_indices (tg_dataset example_generator)) 1 = [3, 4, 5]"
  "positions_of (labels_to_indices (tg_dataset example_generator)) 2 = [6, 7, 8, 9]"
  "length (dataset (tg_dataset example_generator)) = 10"
  by (simp_all add: example_generator_def example_meta_def example_dataset_def positions_of_alt)

lemma example_items:
  "i \<in> {0, 1, 2} \<Longrightarrow> fst (dataset (tg_dataset example_generator) ! i) \<in> {100, 101, 102}"
  "i \<in> {6, 7, 8, 9} \<Longrightarrow> fst (dataset (tg_dataset example_generator) ! i) \<in> {106, 107, 108, 109}"
  by (auto simp: example_generator_def example_meta_def example_dataset_def)

lemma example_override_episode:
  assumes run: "sample example_generator (Some [0, 2]) 3 g = (Inr ep, tg', g')"
  shows "sampled_classes ep = [0, 2]" and "label ep = [0, 0, 0, 1, 1, 1]"
    and "sample_dataset_len ep = 6"
    and "set (take 3 (data ep)) \<subseteq> {100, 101, 102}"
    and "set (drop 3 (data ep)) \<subseteq> {106, 107, 108, 109}"
proof -
  let ?item = "\<lambda>i. fst (dataset (tg_dataset example_generator) ! i)"
  let ?l2i = "labels_to_indices (tg_dataset example_generator)"
  from sample_Inr[OF run] obtain enc di l2i' where
    enc: "LabelEncoder [0, 2 :: nat] = Inr enc" and
    loop: "sample_loop enc 3 [0, 2] ?l2i g [] [] = (Inr (di, label ep), l2i', g')" and
    fetch: "fetch_data (tg_dataset example_generator) di = Inr (data ep)" and
    cs: "sampled_classes ep = [0, 2]"
    by auto
  show "sampled_classes ep = [0, 2]" by (rule cs)
  from sample_loop_Inr[OF loop] obtain chunks where
    di: "di = concat chunks" and
    all: "list_all2 (\<lambda>c ch. length ch = nat 3 \<and> set ch \<subseteq> set (positions_of ?l2i c))
            [0, 2] chunks" and
    lab: "label ep = concat (map (\<lambda>c. replicate (nat 3) (the (class_to_idx enc c))) [0, 2])"
    by auto
  have "label ep = concat (map (\<lambda>i. replicate (nat 3) i) [0..<length [0, 2 :: nat]])"
    unfolding lab using enc by (rule encoder_labels)
  also have "[0..<length [0, 2 :: nat]] = [0, 1]" by (simp add: upt_rec)
  finally show "label ep = [0, 0, 0, 1, 1, 1]" by (simp add: numeral_3_eq_3)
  from all obtain a b where chunks: "chunks = [a, b]"
    and a: "length a = 3" "set a \<subseteq> set (positions_of ?l2i 0)"
    and b: "length b = 3" "set b \<subseteq> set (positions_of ?l2i 2)"
    by (auto simp: list_all2_Cons1)
  have d: "data ep = map ?item a @ map ?item b"
    using fetch_data_Inr[OF fetch] unfolding di chunks by simp
  show "sample_dataset_len ep = 6" unfolding sample_dataset_len_def d using a(1) b(1) by simp
  have "set (map ?item a) \<subseteq> {100, 101, 102}"
    using a(2) example_items(1) unfolding example_positions by auto
  then show "set (take 3 (data ep)) \<subseteq> {100, 101, 102}" unfolding d using a(1) by simp
  have "set (map ?item b) \<subseteq> {106, 107, 108, 109}"
    using b(2) example_items(2) unfolding example_positions by auto
  then show "set (drop 3 (data ep)) \<subseteq> {106, 107, 108, 109}" unfolding d using a(1) by simp
qed

theorem episode_items_from_class_positions_witness:
  "\<forall>g. \<exists>ep tg' g'. sample example_generator (Some [0, 2]) 3 g = (Inr ep, tg', g') \<and>
     sample_dataset_len ep = 6 \<and> label ep = [0, 0, 0, 1, 1, 1] \<and>
     set (take 3 (data ep)) \<subseteq> {100, 101, 102} \<and>
     set (drop 3 (data ep)) \<subseteq> {106, 107, 108, 109} \<and>
     (\<exists>chunks.
        data ep = concat (map (map (\<lambda>i. fst (dataset (tg_dataset example_generator) ! i))) chunks) \<and>
        list_all2 (\<lambda>c ch. length ch = nat 3 \<and>
                     set ch \<subseteq> set (positions_of (labels_to_indices (tg_dataset example_generator)) c) \<and>
                     (\<forall>i \<in> set ch. i < length (dataset (tg_dataset example_generator))))
          [0, 2] chunks)"
proof
  fix g :: rng
  have "\<exists>ep tg' g'. sample example_generator (Some [0, 2]) 3 g = (Inr ep, tg', g')"
    by (rule sample_succeeds[where cs = "[0, 2]" and ?g1.0 = g])
       (simp_all add: example_positions)
  then obtain ep tg' g' where run: "sample example_generator (Some [0, 2]) 3 g = (Inr ep, tg', g')"
    by blast
  note ex = example_override_episode[OF run]
  from episode_items_from_class_positions[OF run] obtain chunks where
    c1: "data ep = concat (map (map (\<lambda>i. fst (dataset (tg_dataset example_generator) ! i))) chunks)"
    and c2: "list_all2 (\<lambda>c ch. length ch = nat 3 \<and>
                     set ch \<subseteq> set (positions_of (labels_to_indices (tg_dataset example_generator)) c) \<and>
                     (\<forall>i \<in> set ch. i < length (dataset (tg_dataset example_generator))))
          (sampled_classes ep) chunks"
    by blast
  have c3: "\<exists>chunks.
        data ep = concat (map (map (\<lambda>i. fst (dataset (tg_dataset example_generator) ! i))) chunks) \<and>
        list_all2 (\<lambda>c ch. length ch = nat 3 \<and>
                     set ch \<subseteq> set (positions_of (labels_to_indices (tg_dataset example_generator)) c) \<and>
                     (\<forall>i \<in> set ch. i < length (dataset (tg_dataset example_generator))))
          [0, 2] chunks"
    using c1 c2 unfolding ex(1) by (intro exI[of _ chunks] conjI)
  show "\<exists>ep tg' g'. sample example_generator (Some [0, 2]) 3 g = (Inr ep, tg', g') \<and>
     sample_dataset_len ep = 6 \<and> label ep = [0, 0, 0, 1, 1, 1] \<and>
     set (take 3 (data ep)) \<subseteq> {100, 101, 102} \<and>
     set (drop 3 (data ep)) \<subseteq> {106, 107, 108, 109} \<and>
     (\<exists>chunks.
        data ep = concat (map (map (\<lambda>i. fst (dataset (tg_dataset example_generator) ! i))) chunks) \<and>
        list_all2 (\<lambda>c ch. length ch = nat 3 \<and>
                     set ch \<subseteq> set (positions_of (labels_to_indices (tg_dataset example_generator)) c) \<and>
                     (\<forall>i \<in> set ch. i < length (dataset (tg_dataset example_generator))))
          [0, 2] chunks)"
    using run ex(3) ex(2) ex(4) ex(5) c3
    by (intro exI[of _ ep] exI[of _ tg'] exI[of _ g'] conjI)
qed

subsection \<open>Too few positions for a class\<close>

text \<open>
  Claim C6, as amended. If a class of the episode has fewer than \<open>shots\<close> positions in
  the index, \<open>sample\<close> returns no episode: it fails with \<open>InsufficientShotsError\<close> when
  the classes of the episode are pairwise different, and with \<open>DuplicateLabelError\<close>
  (raised earlier, when the encoder is built) when a class is repeated.
\<close>

theorem insufficient_shots:
  assumes "classes_to_sample tg cls g = (Inr cs, g1)" and "c \<in> set cs"
    and "int (length (positions_of (labels_to_indices (tg_dataset tg)) c)) < shots"
  shows "\<exists>tg' g'. sample tg cls shots g =
           (Inl (if distinct cs then InsufficientShotsError else DuplicateLabelError), tg', g')"
proof (cases "distinct cs")
  case True
  then obtain enc where enc: "LabelEncoder cs = Inr enc"
    using LabelEncoder_distinct by blast
  from sample_loop_short[OF assms(2,3) encoder_knows_classes[OF enc]]
  obtain l2i' g' where
    "sample_loop enc shots cs (labels_to_indices (tg_dataset tg)) g1 [] []
       = (Inl InsufficientShotsError, l2i', g')"
    by blast
  then show ?thesis
    unfolding sample_after_selection[OF assms(1) enc] using True by simp
next
  case False
  then show ?thesis
    using LabelEncoder_duplicate[OF False] assms(1) by (simp add: sample_def)
qed

theorem insufficient_shots_witness:
  "classes_to_sample example_generator (Some [0, 1]) [] = (Inr [0, 1], []) \<and>
   (0 :: nat) \<in> set [0, 1] \<and>
   int (length (positions_of (labels_to_indices (tg_dataset example_generator)) 0)) < 4 \<and>
   (\<exists>tg' g'. sample example_generator (Some [0, 1]) 4 [] = (Inl InsufficientShotsError, tg', g'))"
proof -
  have a: "classes_to_sample example_generator (Some [0, 1]) [] = (Inr [0, 1], [])" by simp
  have b: "(0 :: nat) \<in> set [0, 1]" by simp
  have c: "int (length (positions_of (labels_to_indices (tg_dataset example_generator)) 0)) < 4"
    by (simp add: example_positions)
  from insufficient_shots[OF a b c] a b c show ?thesis by simp
qed

theorem insufficient_shots_counterexample:
  "(1 :: nat) \<in> set [1, 1] \<and>
   int (length (positions_of (labels_to_indices (tg_dataset example_generator)) 1)) < 4 \<and>
   sample example_generator (Some [1, 1]) 4 [] = (Inl DuplicateLabelError, example_generator, [])"
proof -
  have run: "sample example_generator (Some [1, 1]) 4 [] =
      (Inl DuplicateLabelError, example_generator, [])"
    by code_simp
  have m: "(1 :: nat) \<in> set [1, 1]" by simp
  have "length (positions_of (labels_to_indices (tg_dataset example_generator)) 1) = 3"
    by (simp only: example_positions(2)) simp
  then have short: "int (length (positions_of (labels_to_indices (tg_dataset example_generator)) 1)) < 4"
    by simp
  from m short run show ?thesis by (intro conjI)
qed

subsection \<open>The check of the classes against the labels\<close>

lemma check_classes_iff: "check_classes md cs = Inr () \<longleftrightarrow> set cs \<subseteq> set (labels md)"
  by (auto simp: check_classes_def)

lemma check_classes_invalid:
  "\<not> set cs \<subseteq> set (labels md) \<Longrightarrow> check_classes md cs = Inl InvalidClassError"
  by (auto simp: check_classes_def)

lemma sample_override_error:
  assumes "sample tg (Some cs) shots g = (Inl e, tg', g')"
  shows "e = DuplicateLabelError \<or> e = InsufficientShotsError \<or> e = NegativeSizeError \<or>
         e = KeyError \<or> e = IndexError"
proof (cases "LabelEncoder cs")
  case (Inl e')
  then have "e' = DuplicateLabelError" by (auto simp: LabelEncoder_def split: if_splits)
  then show ?thesis using assms Inl by (simp add: sample_def)
next
  case (Inr enc)
  obtain r l2i g2 where loop:
    "sample_loop enc shots cs (labels_to_indices (tg_dataset tg)) g [] [] = (r, l2i, g2)"
    by (cases "sample_loop enc shots cs (labels_to_indices (tg_dataset tg)) g [] []") auto
  show ?thesis
  proof (cases r)
    case (Inl e')
    then have "e' = e" using assms Inr loop
      by (simp add: sample_after_selection[OF classes_to_sample_Some Inr])
    then show ?thesis using sample_loop_Inl loop Inl by blast
  next
    case (Inr p)
    obtain di dl where p: "p = (di, dl)" by (cases p)
    have "fetch_data (tg_dataset tg) di = Inl e"
      using assms \<open>LabelEncoder cs = Inr enc\<close> loop Inr p
      by (simp add: sample_after_selection[OF classes_to_sample_Some \<open>LabelEncoder cs = Inr enc\<close>]
            split: sum.splits)
    then show ?thesis using fetch_data_Inl by blast
  qed
qed

text \<open>
  The two places that do check. A configured class that is not a label of the dataset
  makes the construction of the sampler fail with \<open>InvalidClassError\<close> (once the
  assertion on \<open>ways\<close>, which comes first, has passed), and makes every \<open>sample\<close> call
  without an override fail with it before anything is drawn, the sampler and the random
  source left as they were.
\<close>

lemma configured_classes_checked:
  "\<not> set cs \<subseteq> set (labels md) \<Longrightarrow> w \<le> int (length cs) \<Longrightarrow>
     TaskGenerator md (Some cs) w = Inl InvalidClassError"
  "\<not> set (classes tg) \<subseteq> set (labels (tg_dataset tg)) \<Longrightarrow>
     sample tg None shots g = (Inl InvalidClassError, tg, g)"
  by (simp_all add: TaskGenerator_def sample_def classes_to_sample_def check_classes_invalid)

text \<open>
  Claim C3 fails on the code. The claim asks for an \<open>InvalidClassError\<close>, raised before
  any sampling, also when the unknown class stands in the list passed to \<open>sample\<close>.
  The constructor and the branch of \<open>sample\<close> without an override call
  \<open>_check_classes\<close>; the branch with an override does not. On the example, class 7 is
  no label of the dataset and \<open>_check_classes\<close> rejects the list \<open>[7]\<close>, yet
  \<open>sample(classes=[7], shots=1)\<close> gets as far as the loop, writes the index and fails
  there with the error of the sampling primitive, and \<open>sample(classes=[7], shots=0)\<close>
  does not fail at all. The same class among the configured ones is refused at the
  start of the call.
\<close>

theorem override_class_not_checked:
  "TaskGenerator (MetaDataset example_dataset) None 2 = Inr example_generator \<and>
   7 \<notin> set (labels (tg_dataset example_generator)) \<and>
   check_classes (tg_dataset example_generator) [7] = Inl InvalidClassError \<and>
   sample example_generator (Some [7]) 1 [] =
     (Inl InsufficientShotsError,
      set_index example_generator [(0, [0, 1, 2]), (1, [3, 4, 5]), (2, [6, 7, 8, 9]), (7, [])],
      []) \<and>
   sample example_generator (Some [7]) 0 [] =
     (Inr \<lparr>data = [], label = [], sampled_classes = [7]\<rparr>,
      set_index example_generator [(0, [0, 1, 2]), (1, [3, 4, 5]), (2, [6, 7, 8, 9]), (7, [])],
      []) \<and>
   sample (example_generator\<lparr>classes := [0, 7]\<rparr>) None 1 [] =
     (Inl InvalidClassError, example_generator\<lparr>classes := [0, 7]\<rparr>, [])"
proof -
  have built: "TaskGenerator (MetaDataset example_dataset) None 2 = Inr example_generator"
    by (simp only: example_meta_built example_generator_built)
  have unknown: "7 \<notin> set (labels (tg_dataset example_generator))"
    by (simp add: example_generator_def example_meta_def)
  have refused: "check_classes (tg_dataset example_generator) [7] = Inl InvalidClassError"
    by (rule check_classes_invalid) (simp add: example_generator_def example_meta_def)
  have run1: "sample example_generator (Some [7]) 1 [] =
     (Inl InsufficientShotsError,
      set_index example_generator [(0, [0, 1, 2]), (1, [3, 4, 5]), (2, [6, 7, 8, 9]), (7, [])],
      [])"
    by code_simp
  have run0: "sample example_generator (Some [7]) 0 [] =
     (Inr \<lparr>data = [], label = [], sampled_classes = [7]\<rparr>,
      set_index example_generator [(0, [0, 1, 2]), (1, [3, 4, 5]), (2, [6, 7, 8, 9]), (7, [])],
      [])"
    by code_simp
  have sibling: "sample (example_generator\<lparr>classes := [0, 7]\<rparr>) None 1 [] =
     (Inl InvalidClassError, example_generator\<lparr>classes := [0, 7]\<rparr>, [])"
    by (rule configured_classes_checked(2)) (simp add: example_generator_def example_meta_def)
  from built unknown refused run1 run0 sibling show ?thesis by (intro conjI)
qed

text \<open>
  The missing check is not particular to the example: whatever list is passed, a
  \<open>sample\<close> call with an override cannot end in \<open>InvalidClassError\<close>.
\<close>

lemma sample_override_never_invalid_class:
  "fst (sample tg (Some ov) shots g) \<noteq> Inl InvalidClassError"
proof
  assume a: "fst (sample tg (Some ov) shots g) = Inl InvalidClassError"
  obtain tg' g' where "sample tg (Some ov) shots g = (Inl InvalidClassError, tg', g')"
    using a by (cases "sample tg (Some ov) shots g") auto
  from sample_override_error[OF this] show False by simp
qed

subsection \<open>What \<open>sample\<close> leaves unchanged\<close>

lemma sample_frame:
  assumes "sample tg cls shots g = (r, tg', g')"
  shows "classes tg' = classes tg" and "ways tg' = ways tg"
    and "dataset (tg_dataset tg') = dataset (tg_dataset tg)"
    and "labels (tg_dataset tg') = labels (tg_dataset tg)"
  using assms unfolding sample_def
  by (auto split: prod.splits sum.splits)

lemma sample_known_classes_unchanged:
  assumes "case cls of
             None \<Rightarrow> set (labels (tg_dataset tg)) \<subseteq> fst ` set (labels_to_indices (tg_dataset tg))
           | Some cs \<Rightarrow> set cs \<subseteq> fst ` set (labels_to_indices (tg_dataset tg))"
  shows "fst (snd (sample tg cls shots g)) = tg"
proof -
  obtain r g1 where sel: "classes_to_sample tg cls g = (r, g1)"
    by (cases "classes_to_sample tg cls g")
  show ?thesis
  proof (cases r)
    case (Inl e)
    then show ?thesis using sel by (simp add: sample_def)
  next
    case (Inr cs)
    have known: "set cs \<subseteq> fst ` set (labels_to_indices (tg_dataset tg))"
    proof (cases cls)
      case None
      then show ?thesis
        using classes_to_sample_None_Inr(2,3)[of tg g cs g1] sel Inr assms by auto
    next
      case (Some cs')
      then show ?thesis using sel Inr assms by simp
    qed
    show ?thesis
    proof (cases "LabelEncoder cs")
      case (Inl e)
      then show ?thesis using sel Inr by (simp add: sample_def)
    next
      case enc: (Inr enc)
      have sel': "classes_to_sample tg cls g = (Inr cs, g1)" using sel Inr by simp
      have "fst (snd (sample_loop enc shots cs (labels_to_indices (tg_dataset tg)) g1 [] []))
              = labels_to_indices (tg_dataset tg)"
        using known by (rule sample_loop_index_unchanged)
      then show ?thesis
        unfolding sample_after_selection[OF sel' enc]
        by (auto split: prod.splits sum.splits)
    qed
  qed
qed

text \<open>
  Claim C4 fails on the code. \<open>labels_to_indices\<close> is the \<open>defaultdict\<close> that the
  constructor filled, and the loop of \<open>sample\<close> reads it with \<open>[_class]\<close>: for a class
  the index does not hold (possible with an override, which is not checked), the read
  stores an empty list under that class. On the example, \<open>sample(classes=[7], shots=0)\<close>
  returns an empty episode and \<open>sample(classes=[7], shots=1)\<close> fails, and both leave
  a fourth key in the index; \<open>labels\<close>, computed from the keys at construction, stays
  at three.
\<close>

theorem sample_inserts_unknown_class:
  "TaskGenerator (MetaDataset example_dataset) None 2 = Inr example_generator \<and>
   labels_to_indices (tg_dataset example_generator) =
     [(0, [0, 1, 2]), (1, [3, 4, 5]), (2, [6, 7, 8, 9])] \<and>
   sample example_generator (Some [7]) 0 [] =
     (Inr \<lparr>data = [], label = [], sampled_classes = [7]\<rparr>,
      set_index example_generator [(0, [0, 1, 2]), (1, [3, 4, 5]), (2, [6, 7, 8, 9]), (7, [])],
      []) \<and>
   sample example_generator (Some [7]) 1 [] =
     (Inl InsufficientShotsError,
      set_index example_generator [(0, [0, 1, 2]), (1, [3, 4, 5]), (2, [6, 7, 8, 9]), (7, [])],
      []) \<and>
   labels_to_indices (tg_dataset
      (set_index example_generator [(0, [0, 1, 2]), (1, [3, 4, 5]), (2, [6, 7, 8, 9]), (7, [])]))
     \<noteq> labels_to_indices (tg_dataset example_generator) \<and>
   labels (tg_dataset
      (set_index example_generator [(0, [0, 1, 2]), (1, [3, 4, 5]), (2, [6, 7, 8, 9]), (7, [])]))
     = [0, 1, 2]"
proof -
  have run1: "sample example_generator (Some [7]) 1 [] =
     (Inl InsufficientShotsError,
      set_index example_generator [(0, [0, 1, 2]), (1, [3, 4, 5]), (2, [6, 7, 8, 9]), (7, [])],
      [])"
    by code_simp
  have built: "TaskGenerator (MetaDataset example_dataset) None 2 = Inr example_generator"
    by (simp only: example_meta_built example_generator_built)
  have before: "labels_to_indices (tg_dataset example_generator) =
     [(0, [0, 1, 2]), (1, [3, 4, 5]), (2, [6, 7, 8, 9])]"
    by (simp add: example_generator_def example_meta_def)
  have run: "sample example_generator (Some [7]) 0 [] =
     (Inr \<lparr>data = [], label = [], sampled_classes = [7]\<rparr>,
      set_index example_generator [(0, [0, 1, 2]), (1, [3, 4, 5]), (2, [6, 7, 8, 9]), (7, [])],
      [])"
    by code_simp
  have changed: "labels_to_indices (tg_dataset
      (set_index example_generator [(0, [0, 1, 2]), (1, [3, 4, 5]), (2, [6, 7, 8, 9]), (7, [])]))
     \<noteq> labels_to_indices (tg_dataset example_generator)"
    unfolding before by simp
  have lab: "labels (tg_dataset
      (set_index example_generator [(0, [0, 1, 2]), (1, [3, 4, 5]), (2, [6, 7, 8, 9]), (7, [])]))
     = [0, 1, 2]"
    by (simp add: example_generator_def example_meta_def)
  from built before run run1 changed lab show ?thesis by (intro conjI)
qed

end
